theory Spec2Isabelle
  imports Complex_Main
begin

section \<open>Data model\<close>

text \<open>
  The messages the planner handles, as records. A C++ \<open>double\<close> is modelled as a
  \<^typ>\<open>real\<close>: sums and products are exact, there is no NaN and no infinity.
  A \<open>ros::Time\<close> stamp is a natural number, a frame id is a string.
\<close>

record header =
  frame_id :: string
  stamp :: nat

record pose2d =
  x :: real
  y :: real
  theta :: real

record pose2d_stamped =
  pose_header :: header
  pose :: pose2d

record path2d =
  path_header :: header
  poses :: "pose2d list"

record twist2d =
  vx :: real
  vy :: real
  omega :: real

text \<open>
  \<open>dwb_msgs::Trajectory2D\<close> is declared outside the source file; the planner only
  copies trajectories around and reads the \<open>velocity\<close> of the chosen one.
\<close>

record trajectory2d =
  velocity :: twist2d
  traj_poses :: "pose2d list"

record critic_score =
  name :: string
  raw_score :: real
  scale :: real

record trajectory_score =
  traj :: trajectory2d
  scores :: "critic_score list"
  total :: real

text \<open>
  A \<open>nav_core2::IllegalTrajectoryException\<close> carries the name of the critic that
  rejected the trajectory and a reason.
\<close>

datatype illegal_trajectory = IllegalTrajectoryException string string

text \<open>
  A critic plugin, as far as scoring sees it: its name, its scale, and its score for a
  trajectory, which is either a number or the exception it throws. Scoring is taken to
  be a function of the trajectory alone.
\<close>

record critic =
  getName :: string
  getScale :: real
  critic_scoreTrajectory :: "trajectory2d \<Rightarrow> illegal_trajectory + real"

text \<open>
  Modelled from the spec: the \<open>IllegalTrajectoryTracker\<close> class
  (\<open>illegal_trajectory_tracker.h\<close> is not among the sources). It counts the legal and
  the illegal trajectories of one pass and, per (critic name, reason) pair, the number
  of rejections, kept in first-seen order.
\<close>

record tracker =
  legal_count :: nat
  illegal_count :: nat
  counts :: "((string \<times> string) \<times> nat) list"

definition new_tracker :: tracker where
  "new_tracker = \<lparr>legal_count = 0, illegal_count = 0, counts = []\<rparr>"

fun bump_count :: "string \<times> string \<Rightarrow> ((string \<times> string) \<times> nat) list
    \<Rightarrow> ((string \<times> string) \<times> nat) list" where
  "bump_count k [] = [(k, 1)]"
| "bump_count k ((k', n) # rest) =
     (if k = k' then (k', n + 1) # rest else (k', n) # bump_count k rest)"

definition addLegalTrajectory :: "tracker \<Rightarrow> tracker" where
  "addLegalTrajectory t = t\<lparr>legal_count := legal_count t + 1\<rparr>"

fun addIllegalTrajectory :: "illegal_trajectory \<Rightarrow> tracker \<Rightarrow> tracker" where
  "addIllegalTrajectory (IllegalTrajectoryException cname reason) t =
     t\<lparr>illegal_count := illegal_count t + 1,
       counts := bump_count (cname, reason) (counts t)\<rparr>"

text \<open>
  The failures of the planner. \<open>OutOfRange\<close> stands for the places where the C++
  indexes or erases past the end of a vector (undefined behaviour there).
\<close>

datatype error =
    PlannerException string
  | PlannerTFException string
  | NoLegalTrajectoriesException tracker
  | OutOfRange

text \<open>The optional evaluation report (\<open>dwb_msgs::LocalPlanEvaluation\<close>).\<close>

record local_plan_evaluation =
  twists :: "trajectory_score list"
  best_index :: nat
  worst_index :: nat

section \<open>The critic chain: \<open>scoreTrajectory\<close>\<close>

text \<open>
  The loop over the critics, started with \<open>score.traj = traj\<close>, no critic scores and
  total 0. \<open>sc\<close> is \<open>short_circuit_trajectory_evaluation_\<close>. A critic with scale 0 is
  recorded with its raw score left at 0 and not evaluated; a critic that throws ends the
  scoring with its exception; the \<open>break\<close> returns the score accumulated so far.
\<close>

fun score_critics :: "bool \<Rightarrow> real \<Rightarrow> trajectory2d \<Rightarrow> critic list \<Rightarrow> trajectory_score
    \<Rightarrow> illegal_trajectory + trajectory_score" where
  "score_critics sc best_score tr [] score = Inr score"
| "score_critics sc best_score tr (c # rest) score =
     (let cs = \<lparr>name = getName c, raw_score = 0, scale = getScale c\<rparr> in
      if scale cs = 0 then
        score_critics sc best_score tr rest (score\<lparr>scores := scores score @ [cs]\<rparr>)
      else
        (case critic_scoreTrajectory c tr of
           Inl e \<Rightarrow> Inl e
         | Inr critic_score \<Rightarrow>
             (let cs' = cs\<lparr>raw_score := critic_score\<rparr>;
                  score' = score\<lparr>scores := scores score @ [cs'],
                                total := total score + critic_score * scale cs'\<rparr>
              in if sc \<and> best_score > 0 \<and> total score' > best_score then Inr score'
                 else score_critics sc best_score tr rest score')))"

definition scoreTrajectory :: "bool \<Rightarrow> critic list \<Rightarrow> trajectory2d \<Rightarrow> real
    \<Rightarrow> illegal_trajectory + trajectory_score" where
  "scoreTrajectory sc critics tr best_score =
     score_critics sc best_score tr critics \<lparr>traj = tr, scores = [], total = 0\<rparr>"

section \<open>The candidate evaluation loop: \<open>coreScoringAlgorithm\<close>\<close>

text \<open>
  The state of the loop: the best and the worst score so far, the tracker, and the
  report when the caller asked for one. The generator is an external plugin; one
  iteration of it is the finite list of trajectories it yields.
\<close>

record scoring_state =
  best :: trajectory_score
  worst :: trajectory_score
  the_tracker :: tracker
  results :: "local_plan_evaluation option"

definition empty_twist :: twist2d where
  "empty_twist = \<lparr>vx = 0, vy = 0, omega = 0\<rparr>"

definition empty_traj :: trajectory2d where
  "empty_traj = \<lparr>velocity = empty_twist, traj_poses = []\<rparr>"

definition unset_score :: trajectory_score where
  "unset_score = \<lparr>traj = empty_traj, scores = [], total = - 1\<rparr>"

definition initial_scoring_state :: "local_plan_evaluation option \<Rightarrow> scoring_state" where
  "initial_scoring_state res =
     \<lparr>best = unset_score, worst = unset_score, the_tracker = new_tracker, results = res\<rparr>"

definition push_twist :: "trajectory_score \<Rightarrow> local_plan_evaluation \<Rightarrow> local_plan_evaluation" where
  "push_twist sc r = r\<lparr>twists := twists r @ [sc]\<rparr>"

definition failed_score :: "trajectory2d \<Rightarrow> illegal_trajectory \<Rightarrow> trajectory_score" where
  "failed_score tr e =
     (case e of IllegalTrajectoryException cname reason \<Rightarrow>
        \<lparr>traj = tr, scores = [\<lparr>name = cname, raw_score = - 1, scale = 0\<rparr>], total = - 1\<rparr>)"

text \<open>One pass through the body of the \<open>while\<close> loop, for the trajectory \<open>tr\<close>.\<close>

definition scoring_step :: "bool \<Rightarrow> critic list \<Rightarrow> scoring_state \<Rightarrow> trajectory2d \<Rightarrow> scoring_state" where
  "scoring_step sc critics st tr =
     (case scoreTrajectory sc critics tr (total (best st)) of
        Inr score \<Rightarrow>
          (let st1 = st\<lparr>the_tracker := addLegalTrajectory (the_tracker st),
                        results := map_option (push_twist score) (results st)\<rparr>;
               st2 = (if total (best st1) < 0 \<or> total score < total (best st1)
                      then st1\<lparr>best := score,
                                results := map_option (\<lambda>r. r\<lparr>best_index := length (twists r) - 1\<rparr>)
                                             (results st1)\<rparr>
                      else st1)
           in if total (worst st2) < 0 \<or> total score > total (worst st2)
              then st2\<lparr>worst := score,
                       results := map_option (\<lambda>r. r\<lparr>worst_index := length (twists r) - 1\<rparr>)
                                    (results st2)\<rparr>
              else st2)
      | Inl e \<Rightarrow>
          st\<lparr>results := map_option (push_twist (failed_score tr e)) (results st),
             the_tracker := addIllegalTrajectory e (the_tracker st)\<rparr>)"

definition scoring_loop :: "bool \<Rightarrow> critic list \<Rightarrow> trajectory2d list \<Rightarrow> scoring_state \<Rightarrow> scoring_state" where
  "scoring_loop sc critics trajs st = foldl (scoring_step sc critics) st trajs"

definition coreScoringAlgorithm :: "bool \<Rightarrow> critic list \<Rightarrow> trajectory2d list
    \<Rightarrow> local_plan_evaluation option \<Rightarrow> (error + trajectory_score) \<times> local_plan_evaluation option" where
  "coreScoringAlgorithm sc critics trajs res =
     (let st = scoring_loop sc critics trajs (initial_scoring_state res) in
      if total (best st) < 0
      then (Inl (NoLegalTrajectoriesException (the_tracker st)), results st)
      else (Inr (best st), results st))"

section \<open>The planner's state and its collaborators\<close>

text \<open>
  The calls the planner makes on its collaborators are recorded, in order, in a trace:
  publishing the global plan, resetting a plugin, asking the goal checker.
\<close>

datatype effect =
    PublishGlobalPlan path2d
  | ResetGenerator
  | ResetGoalChecker
  | ResetCritic string
  | GoalCheckerCalled pose2d pose2d twist2d

record planner_state =
  goal_pose :: pose2d_stamped
  intermediate_goal_pose :: pose2d_stamped
  global_plan :: path2d
  global_plan_segments :: "path2d list"
  effects :: "effect list"

text \<open>
  What the planner reads from outside: the transform provider (\<open>transformPose\<close> fails
  with \<open>None\<close>), the costmap's metadata and the goal checker plugin.
\<close>

record env =
  transformPose :: "string \<Rightarrow> pose2d_stamped \<Rightarrow> pose2d_stamped option"
  transformStampedPose :: "pose2d_stamped \<Rightarrow> string \<Rightarrow> pose2d"
  getFrameId :: string
  getWidth :: nat
  getHeight :: nat
  getResolution :: real
  goal_checker :: "pose2d \<Rightarrow> pose2d \<Rightarrow> twist2d \<Rightarrow> bool"

definition transformPoseToLocal :: "env \<Rightarrow> pose2d_stamped \<Rightarrow> pose2d" where
  "transformPoseToLocal e p = transformStampedPose e p (getFrameId e)"

definition set_stamp :: "nat \<Rightarrow> pose2d_stamped \<Rightarrow> pose2d_stamped" where
  "set_stamp t p = p\<lparr>pose_header := (pose_header p)\<lparr>stamp := t\<rparr>\<rparr>"

definition publishGlobalPlan :: "planner_state \<Rightarrow> planner_state" where
  "publishGlobalPlan s = s\<lparr>effects := effects s @ [PublishGlobalPlan (global_plan s)]\<rparr>"

definition resetPlugins :: "critic list \<Rightarrow> planner_state \<Rightarrow> planner_state" where
  "resetPlugins critics s =
     s\<lparr>effects := effects s @ [ResetGenerator, ResetGoalChecker] @ map (\<lambda>c. ResetCritic (getName c)) critics\<rparr>"

section \<open>The segment and goal state machine: \<open>isGoalReached\<close>\<close>

text \<open>
  \<open>global_plan_.poses.back()\<close> on a plan without poses is undefined in C++; the model
  answers \<open>OutOfRange\<close> there.
\<close>

definition activate_next_segment :: "critic list \<Rightarrow> planner_state \<Rightarrow> error + bool \<times> planner_state" where
  "activate_next_segment critics s =
     (case global_plan_segments s of
        [] \<Rightarrow> Inl OutOfRange
      | seg # rest \<Rightarrow>
          (let s1 = s\<lparr>global_plan := seg\<rparr>;
               s2 = s1\<lparr>global_plan_segments := rest\<rparr>;
               s3 = s2\<lparr>intermediate_goal_pose :=
                        (intermediate_goal_pose s2)\<lparr>pose_header := path_header (global_plan s2)\<rparr>\<rparr>
           in if poses (global_plan s3) = [] then Inl OutOfRange
              else
                (let s4 = s3\<lparr>intermediate_goal_pose :=
                              (intermediate_goal_pose s3)\<lparr>pose := last (poses (global_plan s3))\<rparr>\<rparr>;
                     s5 = publishGlobalPlan s4
                 in Inr (False, resetPlugins critics s5))))"

definition isGoalReached :: "env \<Rightarrow> critic list \<Rightarrow> pose2d_stamped \<Rightarrow> twist2d \<Rightarrow> planner_state
    \<Rightarrow> error + bool \<times> planner_state" where
  "isGoalReached e critics p vel s =
     (if frame_id (pose_header (goal_pose s)) = [] then Inr (False, s)
      else
        (let s1 = s\<lparr>goal_pose := set_stamp (stamp (pose_header p)) (goal_pose s)\<rparr>;
             s2 = s1\<lparr>intermediate_goal_pose :=
                      set_stamp (stamp (pose_header p)) (intermediate_goal_pose s1)\<rparr>;
             local_pose = transformPoseToLocal e p;
             local_goal = transformPoseToLocal e (intermediate_goal_pose s2);
             ret = goal_checker e local_pose local_goal vel;
             s3 = s2\<lparr>effects := effects s2 @ [GoalCheckerCalled local_pose local_goal vel]\<rparr>
         in if ret then
              (if global_plan_segments s3 = [] then Inr (True, s3)
               else activate_next_segment critics s3)
            else Inr (ret, s3)))"

definition setGoalPose :: "pose2d_stamped \<Rightarrow> planner_state \<Rightarrow> planner_state" where
  "setGoalPose g s = s\<lparr>goal_pose := g, intermediate_goal_pose := g\<rparr>"

section \<open>The path segmenter: \<open>setPlan\<close>\<close>

text \<open>
  The dot product of the vector from \<open>p0\<close> to \<open>p1\<close> with the heading at \<open>p0\<close>, and the
  two flags the source derives from it.
\<close>

definition dotproduct :: "pose2d \<Rightarrow> pose2d \<Rightarrow> real" where
  "dotproduct p0 p1 = (x p1 - x p0) * cos (theta p0) + (y p1 - y p0) * sin (theta p0)"

definition backwards :: "pose2d \<Rightarrow> pose2d \<Rightarrow> bool" where
  "backwards p0 p1 \<longleftrightarrow> dotproduct p0 p1 < 0"

definition onlyRotation :: "pose2d \<Rightarrow> pose2d \<Rightarrow> bool" where
  "onlyRotation p0 p1 \<longleftrightarrow> dotproduct p0 p1 * dotproduct p0 p1 < 1 / 10 ^ 10"

text \<open>
  The inner \<open>while\<close> loop: poses move from the front of \<open>copy\<close> to the back of the
  segment while the transition has the segment's flags; at the first that differs the
  segment's last pose is put back at the front of \<open>copy\<close>. The segment is never empty
  when the loop is entered. The result is the segment and what is left of \<open>copy\<close>.
\<close>

fun extend_segment :: "bool \<Rightarrow> bool \<Rightarrow> pose2d list \<Rightarrow> pose2d list \<Rightarrow> pose2d list \<times> pose2d list" where
  "extend_segment bw rot segment [] = (segment, [])"
| "extend_segment bw rot segment (p # copy) =
     (if backwards (last segment) p = bw \<and> onlyRotation (last segment) p = rot
      then extend_segment bw rot (segment @ [p]) copy
      else (segment, last segment # p # copy))"

lemma length_extend_segment:
  "length (snd (extend_segment bw rot segment copy)) \<le> Suc (length copy)"
  by (induction copy arbitrary: segment) (simp_all add: le_SucI)

text \<open>The outer \<open>while\<close> loop, which runs while \<open>copy\<close> has more than one pose.\<close>

function split_loop :: "header \<Rightarrow> pose2d list \<Rightarrow> path2d list \<Rightarrow> path2d list" where
  "split_loop hdr (p0 # p1 # copy) segments =
     (let r = extend_segment (backwards p0 p1) (onlyRotation p0 p1) [p0, p1] copy
      in split_loop hdr (snd r) (segments @ [\<lparr>path_header = hdr, poses = fst r\<rparr>]))"
| "split_loop hdr [p0] segments = segments"
| "split_loop hdr [] segments = segments"
  by pat_completeness auto
termination
proof (relation "measure (\<lambda>(hdr, copy, segments). length copy)")
  show "wf (measure (\<lambda>(hdr, copy, segments). length copy))"
    by simp
next
  fix hdr :: header and p0 p1 :: pose2d and copy :: "pose2d list"
    and segments :: "path2d list" and r
  assume "r = extend_segment (backwards p0 p1) (onlyRotation p0 p1) [p0, p1] copy"
  then have "length (snd r) \<le> Suc (length copy)"
    by (simp add: length_extend_segment)
  then show "((hdr, snd r, segments @ [\<lparr>path_header = hdr, poses = fst r\<rparr>]),
             (hdr, p0 # p1 # copy, segments))
           \<in> measure (\<lambda>(hdr, copy, segments). length copy)"
    by simp
qed

definition setPlan :: "bool \<Rightarrow> critic list \<Rightarrow> path2d \<Rightarrow> planner_state \<Rightarrow> error + planner_state" where
  "setPlan split_path critics path s =
     (let s1 = s\<lparr>global_plan_segments := []\<rparr>;
          s2 = (if split_path
                then s1\<lparr>global_plan_segments := split_loop (path_header path) (poses path) []\<rparr>
                else s1\<lparr>global_plan_segments := [path]\<rparr>)
      in case global_plan_segments s2 of
           [] \<Rightarrow> Inl OutOfRange
         | seg # rest \<Rightarrow>
             (let s3 = s2\<lparr>global_plan := seg\<rparr>;
                  s4 = s3\<lparr>global_plan_segments := rest\<rparr>;
                  s5 = publishGlobalPlan s4;
                  s6 = s5\<lparr>intermediate_goal_pose :=
                           (intermediate_goal_pose s5)\<lparr>pose_header := path_header (global_plan s5)\<rparr>\<rparr>
              in if poses (global_plan s6) = [] then Inl OutOfRange
                 else Inr (resetPlugins critics
                        (s6\<lparr>intermediate_goal_pose :=
                              (intermediate_goal_pose s6)\<lparr>pose := last (poses (global_plan s6))\<rparr>\<rparr>))))"

section \<open>The plan transformer: \<open>transformGlobalPlan\<close>\<close>

definition getSquareDistance :: "pose2d \<Rightarrow> pose2d \<Rightarrow> real" where
  "getSquareDistance pose_a pose_b =
     (let x_diff = x pose_a - x pose_b; y_diff = y pose_a - y pose_b
      in x_diff * x_diff + y_diff * y_diff)"

text \<open>
  The windowing \<open>for\<close> loop over the poses of the stored plan. \<open>acc\<close> is
  \<open>transformed_plan.poses\<close>; \<open>f\<close> maps a pose of the plan to the costmap's frame.
\<close>

fun window_loop :: "pose2d \<Rightarrow> real \<Rightarrow> (pose2d \<Rightarrow> pose2d) \<Rightarrow> pose2d list \<Rightarrow> pose2d list \<Rightarrow> pose2d list" where
  "window_loop robot sq_dist_threshold f [] acc = acc"
| "window_loop robot sq_dist_threshold f (p # ps) acc =
     (if getSquareDistance robot p > sq_dist_threshold then
        (if acc = [] then window_loop robot sq_dist_threshold f ps acc
         else acc @ [f p])
      else window_loop robot sq_dist_threshold f ps (acc @ [f p]))"

text \<open>
  The pruning \<open>while\<close> loop: both plans lose their first pose until the transformed
  plan is empty or starts with a pose nearer than the prune distance. Erasing at the end
  iterator of the stored plan is undefined in C++; the model answers \<open>None\<close> there.
\<close>

fun prune_loop :: "pose2d \<Rightarrow> real \<Rightarrow> pose2d list \<Rightarrow> pose2d list \<Rightarrow> (pose2d list \<times> pose2d list) option" where
  "prune_loop costmap_pose sq_prune_dist [] global = Some ([], global)"
| "prune_loop costmap_pose sq_prune_dist (w # transformed) global =
     (if getSquareDistance costmap_pose w < sq_prune_dist then Some (w # transformed, global)
      else (case global of
              [] \<Rightarrow> None
            | g # global' \<Rightarrow> prune_loop costmap_pose sq_prune_dist transformed global'))"

definition dist_threshold :: "env \<Rightarrow> real" where
  "dist_threshold e = real (max (getWidth e) (getHeight e)) * getResolution e / 2"

definition windowed_plan :: "env \<Rightarrow> pose2d_stamped \<Rightarrow> path2d \<Rightarrow> pose2d list" where
  "windowed_plan e robot_pose plan =
     window_loop (pose robot_pose) (dist_threshold e * dist_threshold e)
       (\<lambda>p. transformPoseToLocal e
               \<lparr>pose_header = \<lparr>frame_id = frame_id (path_header plan), stamp = 0\<rparr>, pose = p\<rparr>)
       (poses plan) []"

definition transformGlobalPlan :: "bool \<Rightarrow> real \<Rightarrow> env \<Rightarrow> pose2d_stamped \<Rightarrow> planner_state
    \<Rightarrow> (error + path2d) \<times> planner_state" where
  "transformGlobalPlan prune_plan prune_distance e p s =
     (if poses (global_plan s) = [] then (Inl (PlannerException ''Received plan with zero length''), s)
      else
        (case transformPose e (frame_id (path_header (global_plan s))) p of
           None \<Rightarrow>
             (Inl (PlannerTFException ''Unable to transform robot pose into global plan's frame''), s)
         | Some robot_pose \<Rightarrow>
             (let hdr = \<lparr>frame_id = getFrameId e, stamp = stamp (pose_header p)\<rparr>;
                  transformed = windowed_plan e robot_pose (global_plan s)
              in if prune_plan then
                   (case transformPose e (frame_id hdr) p of
                      None \<Rightarrow>
                        (Inl (PlannerTFException ''Unable to transform robot pose into costmap's frame''), s)
                    | Some costmap_pose \<Rightarrow>
                        (case prune_loop (pose costmap_pose) (prune_distance * prune_distance)
                                transformed (poses (global_plan s)) of
                           None \<Rightarrow> (Inl OutOfRange, s)
                         | Some (transformed', global') \<Rightarrow>
                             (let s' = publishGlobalPlan
                                         (s\<lparr>global_plan := (global_plan s)\<lparr>poses := global'\<rparr>\<rparr>)
                              in if transformed' = []
                                 then (Inl (PlannerException ''Resulting plan has 0 poses in it.''), s')
                                 else (Inr \<lparr>path_header = hdr, poses = transformed'\<rparr>, s'))))
                 else if transformed = []
                   then (Inl (PlannerException ''Resulting plan has 0 poses in it.''), s)
                   else (Inr \<lparr>path_header = hdr, poses = transformed\<rparr>, s))))"

section \<open>Notions the properties are stated with\<close>

subsection \<open>Scoring\<close>

text \<open>
  Every critic has a non-negative scale and, where it accepts the trajectory \<open>tr\<close>, a
  non-negative raw score.
\<close>

definition nonneg_on :: "critic list \<Rightarrow> trajectory2d \<Rightarrow> bool" where
  "nonneg_on critics tr =
     list_all (\<lambda>c. 0 \<le> getScale c \<and>
                 (case critic_scoreTrajectory c tr of Inr r \<Rightarrow> 0 \<le> r | Inl e \<Rightarrow> True)) critics"

definition raw_of :: "critic \<Rightarrow> trajectory2d \<Rightarrow> real" where
  "raw_of c tr = (case critic_scoreTrajectory c tr of Inr r \<Rightarrow> r | Inl e \<Rightarrow> 0)"

text \<open>
  The sum of \<open>raw_score * scale\<close> over the critics with non-zero scale, in the order of
  the critic list.
\<close>

definition weighted_sum :: "critic list \<Rightarrow> trajectory2d \<Rightarrow> real" where
  "weighted_sum critics tr =
     sum_list (map (\<lambda>c. raw_of c tr * getScale c) (filter (\<lambda>c. getScale c \<noteq> 0) critics))"

text \<open>A candidate is legal when no critic that is applied to it rejects it.\<close>

definition legal :: "critic list \<Rightarrow> trajectory2d \<Rightarrow> bool" where
  "legal critics tr = (case scoreTrajectory False critics tr 0 of Inr s \<Rightarrow> True | Inl e \<Rightarrow> False)"

text \<open>
  Two loop states, one of a run with short-circuit and one of a run without, agree on
  the best candidate; they are equal altogether as long as no best candidate exists.
\<close>

definition sync :: "scoring_state \<Rightarrow> scoring_state \<Rightarrow> bool" where
  "sync a b \<longleftrightarrow> best a = best b \<and> (0 \<le> total (best b) \<or> a = b)"

text \<open>The only negative total that best and worst ever hold is the initial sentinel.\<close>

definition no_negative_installed :: "scoring_state \<Rightarrow> bool" where
  "no_negative_installed st \<longleftrightarrow>
     (if total (best st) < 0 then best st = unset_score else True) \<and>
     (if total (worst st) < 0 then worst st = unset_score else True)"

definition cycle_inv :: "critic list \<Rightarrow> trajectory2d list \<Rightarrow> scoring_state \<Rightarrow> bool" where
  "cycle_inv critics seen st \<longleftrightarrow>
     (if list_ex (legal critics) seen then 0 \<le> total (best st)
      else total (best st) < 0 \<and> legal_count (the_tracker st) = 0 \<and>
           illegal_count (the_tracker st) = length seen)"

subsection \<open>Segments\<close>

text \<open>
  Concatenating the segments, with the first pose of every segment after the first
  dropped.
\<close>

fun rejoin :: "path2d list \<Rightarrow> pose2d list" where
  "rejoin [] = []"
| "rejoin (seg # segs) = poses seg @ concat (map (\<lambda>s. tl (poses s)) segs)"

text \<open>Each segment ends with the pose the next one starts with.\<close>

fun overlapping :: "path2d list \<Rightarrow> bool" where
  "overlapping (a # b # rest) \<longleftrightarrow>
     poses a \<noteq> [] \<and> poses b \<noteq> [] \<and> last (poses a) = hd (poses b) \<and> overlapping (b # rest)"
| "overlapping [a] \<longleftrightarrow> True"
| "overlapping [] \<longleftrightarrow> True"

definition well_split :: "header \<Rightarrow> pose2d list \<Rightarrow> path2d list \<Rightarrow> bool" where
  "well_split hdr ps segs \<longleftrightarrow>
     segs \<noteq> [] \<and> rejoin segs = ps \<and> overlapping segs \<and>
     list_all (\<lambda>seg. path_header seg = hdr \<and> 2 \<le> length (poses seg)) segs"

subsection \<open>Goal checking\<close>

text \<open>
  The state after the goal checker was asked: both goal poses carry the stamp of the
  robot's pose, and the call is in the trace.
\<close>

definition goal_check_state :: "env \<Rightarrow> pose2d_stamped \<Rightarrow> twist2d \<Rightarrow> planner_state \<Rightarrow> planner_state" where
  "goal_check_state e p vel s =
     s\<lparr>goal_pose := set_stamp (stamp (pose_header p)) (goal_pose s),
       intermediate_goal_pose := set_stamp (stamp (pose_header p)) (intermediate_goal_pose s),
       effects := effects s @
         [GoalCheckerCalled (transformPoseToLocal e p)
            (transformPoseToLocal e (set_stamp (stamp (pose_header p)) (intermediate_goal_pose s))) vel]\<rparr>"

definition reports_reached :: "env \<Rightarrow> pose2d_stamped \<Rightarrow> twist2d \<Rightarrow> planner_state \<Rightarrow> bool" where
  "reports_reached e p vel s \<longleftrightarrow>
     goal_checker e (transformPoseToLocal e p)
       (transformPoseToLocal e (set_stamp (stamp (pose_header p)) (intermediate_goal_pose s))) vel"

text \<open>
  The front segment of the queue made the active plan, with the intermediate goal at
  its last pose.
\<close>

definition commit_front_segment :: "planner_state \<Rightarrow> planner_state" where
  "commit_front_segment s =
     s\<lparr>global_plan := hd (global_plan_segments s),
       global_plan_segments := tl (global_plan_segments s),
       intermediate_goal_pose :=
         \<lparr>pose_header = path_header (hd (global_plan_segments s)),
          pose = last (poses (hd (global_plan_segments s)))\<rparr>\<rparr>"

subsection \<open>The window\<close>

definition beyond :: "pose2d \<Rightarrow> real \<Rightarrow> pose2d \<Rightarrow> bool" where
  "beyond robot threshold p \<longleftrightarrow> getSquareDistance robot p > threshold * threshold"

text \<open>
  The window in words: skip the leading poses beyond the threshold, take the poses
  within it, and add the first pose beyond it that follows, if there is one.
\<close>

definition window_spec :: "pose2d \<Rightarrow> real \<Rightarrow> pose2d list \<Rightarrow> pose2d list" where
  "window_spec robot threshold ps =
     (let rest = dropWhile (beyond robot threshold) ps
      in takeWhile (\<lambda>p. \<not> beyond robot threshold p) rest @
         take 1 (dropWhile (\<lambda>p. \<not> beyond robot threshold p) rest))"

definition to_costmap_frame :: "env \<Rightarrow> string \<Rightarrow> pose2d \<Rightarrow> pose2d" where
  "to_costmap_frame e frame p =
     transformPoseToLocal e \<lparr>pose_header = \<lparr>frame_id = frame, stamp = 0\<rparr>, pose = p\<rparr>"

subsection \<open>Concrete inputs\<close>

definition traj_of :: "real \<Rightarrow> trajectory2d" where
  "traj_of v = \<lparr>velocity = \<lparr>vx = v, vy = 0, omega = 0\<rparr>, traj_poses = []\<rparr>"

definition speed_critic :: critic where
  "speed_critic = \<lparr>getName = ''speed'', getScale = 1,
      critic_scoreTrajectory = (\<lambda>tr. Inr (vx (velocity tr)))\<rparr>"

definition bias_critic :: critic where
  "bias_critic = \<lparr>getName = ''bias'', getScale = 2, critic_scoreTrajectory = (\<lambda>tr. Inr 1)\<rparr>"

definition negative_critic :: critic where
  "negative_critic = \<lparr>getName = ''neg'', getScale = 1, critic_scoreTrajectory = (\<lambda>tr. Inr (- 5))\<rparr>"

definition rejecting_critic :: critic where
  "rejecting_critic = \<lparr>getName = ''obstacle'', getScale = 1,
      critic_scoreTrajectory = (\<lambda>tr. Inl (IllegalTrajectoryException ''obstacle'' ''collision''))\<rparr>"

definition mk_pose :: "real \<Rightarrow> real \<Rightarrow> real \<Rightarrow> pose2d" where
  "mk_pose a b t = \<lparr>x = a, y = b, theta = t\<rparr>"

definition scenario_path :: "header \<Rightarrow> path2d" where
  "scenario_path hdr = \<lparr>path_header = hdr,
     poses = [mk_pose 0 0 0, mk_pose 1 0 0, mk_pose 2 0 0, mk_pose 2 1 (157 / 100)]\<rparr>"

definition map_header :: header where
  "map_header = \<lparr>frame_id = ''map'', stamp = 0\<rparr>"

text \<open>
  A 10 by 8 costmap of resolution 1 whose frame coincides with the plan's: transforms
  only rename the frame. The goal checker accepts within distance 1.
\<close>

definition identity_env :: env where
  "identity_env =
     \<lparr>transformPose = (\<lambda>frame p. Some (p\<lparr>pose_header := (pose_header p)\<lparr>frame_id := frame\<rparr>\<rparr>)),
      transformStampedPose = (\<lambda>p frame. pose p),
      getFrameId = ''odom'', getWidth = 10, getHeight = 8, getResolution = 1,
      goal_checker = (\<lambda>a b v. getSquareDistance a b < 1)\<rparr>"

definition robot_at :: "real \<Rightarrow> real \<Rightarrow> pose2d_stamped" where
  "robot_at a b = \<lparr>pose_header = \<lparr>frame_id = ''map'', stamp = 7\<rparr>, pose = mk_pose a b 0\<rparr>"

definition tracking_state :: "string \<Rightarrow> pose2d list \<Rightarrow> path2d list \<Rightarrow> planner_state" where
  "tracking_state goal_frame ps segs =
     \<lparr>goal_pose = \<lparr>pose_header = \<lparr>frame_id = goal_frame, stamp = 0\<rparr>, pose = mk_pose 9 9 0\<rparr>,
      intermediate_goal_pose = \<lparr>pose_header = map_header, pose = last ps\<rparr>,
      global_plan = \<lparr>path_header = map_header, poses = ps\<rparr>,
      global_plan_segments = segs, effects = []\<rparr>"

definition second_segment :: path2d where
  "second_segment = \<lparr>path_header = map_header, poses = [mk_pose 1 0 0, mk_pose 1 1 0]\<rparr>"

lemmas scoring_example_defs = traj_of_def speed_critic_def bias_critic_def negative_critic_def
  rejecting_critic_def nonneg_on_def coreScoringAlgorithm_def scoring_loop_def scoring_step_def
  scoreTrajectory_def initial_scoring_state_def unset_score_def new_tracker_def
  addLegalTrajectory_def Let_def empty_traj_def empty_twist_def push_twist_def failed_score_def
  legal_def no_negative_installed_def

lemmas planner_example_defs = mk_pose_def map_header_def identity_env_def robot_at_def
  tracking_state_def second_segment_def transformGlobalPlan_def windowed_plan_def
  dist_threshold_def transformPoseToLocal_def getSquareDistance_def publishGlobalPlan_def Let_def
  isGoalReached_def set_stamp_def activate_next_segment_def resetPlugins_def reports_reached_def
  beyond_def window_spec_def to_costmap_frame_def commit_front_segment_def goal_check_state_def

section \<open>Properties of the critic chain\<close>

lemma nonneg_on_Cons:
  "nonneg_on (c # cs) tr \<longleftrightarrow>
     0 \<le> getScale c \<and> (case critic_scoreTrajectory c tr of Inr r \<Rightarrow> 0 \<le> r | Inl e \<Rightarrow> True) \<and> nonneg_on cs tr"
  by (simp add: nonneg_on_def)

lemma score_critics_total:
  "score_critics False bs tr cs s = Inr r \<Longrightarrow> total r = total s + weighted_sum cs tr"
proof (induction cs arbitrary: s)
  case Nil
  then show ?case by (simp add: weighted_sum_def)
next
  case (Cons c cs)
  show ?case
  proof (cases "getScale c = 0")
    case True
    with Cons.prems have "score_critics False bs tr cs
        (s\<lparr>scores := scores s @ [\<lparr>name = getName c, raw_score = 0, scale = getScale c\<rparr>]\<rparr>) = Inr r"
      by simp
    from Cons.IH[OF this] True show ?thesis by (simp add: weighted_sum_def)
  next
    case False
    with Cons.prems obtain v where v: "critic_scoreTrajectory c tr = Inr v"
      by (cases "critic_scoreTrajectory c tr") (auto simp: Let_def)
    with False Cons.prems have "score_critics False bs tr cs
        (s\<lparr>scores := scores s @ [\<lparr>name = getName c, raw_score = v, scale = getScale c\<rparr>],
           total := total s + v * getScale c\<rparr>) = Inr r"
      by (simp add: Let_def)
    from Cons.IH[OF this] False v show ?thesis by (simp add: weighted_sum_def raw_of_def)
  qed
qed

lemma score_critics_mono:
  "nonneg_on cs tr \<Longrightarrow> score_critics sc bs tr cs s = Inr r \<Longrightarrow> total s \<le> total r"
proof (induction cs arbitrary: s)
  case Nil
  then show ?case by simp
next
  case (Cons c cs)
  from Cons.prems(1) have nn: "0 \<le> getScale c" "nonneg_on cs tr"
    by (simp_all add: nonneg_on_Cons)
  show ?case
  proof (cases "getScale c = 0")
    case True
    with Cons.prems(2) have "score_critics sc bs tr cs
        (s\<lparr>scores := scores s @ [\<lparr>name = getName c, raw_score = 0, scale = getScale c\<rparr>]\<rparr>) = Inr r"
      by simp
    from Cons.IH[OF nn(2) this] show ?thesis by simp
  next
    case False
    with Cons.prems(2) obtain v where v: "critic_scoreTrajectory c tr = Inr v"
      by (cases "critic_scoreTrajectory c tr") (auto simp: Let_def)
    with Cons.prems(1) have v0: "0 \<le> v" by (simp add: nonneg_on_Cons)
    let ?s' = "s\<lparr>scores := scores s @ [\<lparr>name = getName c, raw_score = v, scale = getScale c\<rparr>],
           total := total s + v * getScale c\<rparr>"
    have le: "total s \<le> total ?s'" using v0 nn(1) by simp
    show ?thesis
    proof (cases "sc \<and> bs > 0 \<and> total ?s' > bs")
      case True
      with False v Cons.prems(2) have "r = ?s'" by (simp add: Let_def)
      with le show ?thesis by simp
    next
      case stop: False
      with False v Cons.prems(2) have "score_critics sc bs tr cs ?s' = Inr r"
        by (auto simp: Let_def)
      from Cons.IH[OF nn(2) this] le show ?thesis by simp
    qed
  qed
qed

lemma score_critics_no_best:
  "\<not> 0 < bs \<Longrightarrow> score_critics sc bs tr cs s = score_critics False bs' tr cs s"
  by (induction cs arbitrary: s) (auto simp: Let_def split: sum.splits)

lemma score_critics_short_circuit:
  "nonneg_on cs tr \<Longrightarrow> 0 < bs \<Longrightarrow>
   score_critics True bs tr cs s = score_critics False bs tr cs s \<or>
   (\<exists>r. score_critics True bs tr cs s = Inr r \<and> bs < total r \<and>
        (\<forall>r'. score_critics False bs tr cs s = Inr r' \<longrightarrow> bs < total r'))"
proof (induction cs arbitrary: s)
  case Nil
  then show ?case by simp
next
  case (Cons c cs)
  from Cons.prems(1) have nn: "0 \<le> getScale c" "nonneg_on cs tr"
    by (simp_all add: nonneg_on_Cons)
  show ?case
  proof (cases "getScale c = 0")
    case True
    with Cons.IH[OF nn(2) Cons.prems(2)] show ?thesis by simp
  next
    case False
    show ?thesis
    proof (cases "critic_scoreTrajectory c tr")
      case (Inl e)
      with False show ?thesis by simp
    next
      case (Inr v)
      let ?s' = "s\<lparr>scores := scores s @ [\<lparr>name = getName c, raw_score = v, scale = getScale c\<rparr>],
           total := total s + v * getScale c\<rparr>"
      show ?thesis
      proof (cases "total ?s' > bs")
        case True
        have T: "score_critics True bs tr (c # cs) s = Inr ?s'"
          using False Inr True Cons.prems(2) by (simp add: Let_def)
        have F: "score_critics False bs tr (c # cs) s = score_critics False bs tr cs ?s'"
          using False Inr by (simp add: Let_def)
        have "\<forall>r'. score_critics False bs tr cs ?s' = Inr r' \<longrightarrow> bs < total r'"
          using score_critics_mono[OF nn(2)] True by fastforce
        with T F True show ?thesis by auto
      next
        case stop: False
        have "score_critics b bs tr (c # cs) s = score_critics b bs tr cs ?s'" for b
          using False Inr stop by (simp add: Let_def)
        with Cons.IH[OF nn(2) Cons.prems(2), of ?s'] show ?thesis by simp
      qed
    qed
  qed
qed

lemma scoreTrajectory_nonneg:
  "nonneg_on critics tr \<Longrightarrow> scoreTrajectory sc critics tr bs = Inr r \<Longrightarrow> 0 \<le> total r"
  using score_critics_mono[of critics tr sc bs "\<lparr>traj = tr, scores = [], total = 0\<rparr>" r]
  by (simp add: scoreTrajectory_def)

lemma best_scoring_step:
  "best (scoring_step sc critics st tr) =
     (case scoreTrajectory sc critics tr (total (best st)) of
        Inl e \<Rightarrow> best st
      | Inr score \<Rightarrow> if total (best st) < 0 \<or> total score < total (best st) then score else best st)"
  by (simp add: scoring_step_def Let_def split: sum.splits)

section \<open>Short-circuit evaluation selects the same best candidate\<close>

lemma scoring_step_sync:
  assumes nn: "nonneg_on critics tr" and s: "sync a b"
  shows "sync (scoring_step True critics a tr) (scoring_step False critics b tr)"
proof (cases "0 < total (best b)")
  case False
  have eq: "scoreTrajectory True critics tr (total (best b)) = scoreTrajectory False critics tr (total (best b))"
    using score_critics_no_best[OF False] by (simp add: scoreTrajectory_def)
  show ?thesis
  proof (cases "a = b")
    case True
    have "scoring_step True critics b tr = scoring_step False critics b tr"
      by (simp add: scoring_step_def eq)
    with True show ?thesis by (simp add: sync_def)
  next
    case ne: False
    with s have b0: "0 \<le> total (best b)" and ab: "best a = best b" by (auto simp: sync_def)
    show ?thesis
      unfolding sync_def best_scoring_step ab eq
      using b0 scoreTrajectory_nonneg[OF nn, of False "total (best b)"]
      by (auto split: sum.splits)
  qed
next
  case True
  from s True have ab: "best a = best b" by (auto simp: sync_def)
  let ?s0 = "\<lparr>traj = tr, scores = [], total = 0\<rparr>"
  from score_critics_short_circuit[OF nn True, of ?s0]
  have "scoreTrajectory True critics tr (total (best b)) = scoreTrajectory False critics tr (total (best b)) \<or>
   (\<exists>r. scoreTrajectory True critics tr (total (best b)) = Inr r \<and> total (best b) < total r \<and>
        (\<forall>r'. scoreTrajectory False critics tr (total (best b)) = Inr r' \<longrightarrow> total (best b) < total r'))"
    by (simp add: scoreTrajectory_def)
  then show ?thesis
    unfolding sync_def best_scoring_step ab
    using True scoreTrajectory_nonneg[OF nn, of False "total (best b)"]
    by (auto split: sum.splits)
qed

lemma scoring_loop_sync:
  "list_all (nonneg_on critics) trajs \<Longrightarrow> sync a b \<Longrightarrow>
   sync (scoring_loop True critics trajs a) (scoring_loop False critics trajs b)"
  unfolding scoring_loop_def
  by (induction trajs arbitrary: a b) (simp_all add: scoring_step_sync)

lemma sync_initial: "sync (initial_scoring_state res) (initial_scoring_state res)"
  by (simp add: sync_def)

text \<open>
  Claim C1. Assume every critic's scale and raw score are non-negative on the candidates
  of the cycle. Without short-circuit, the total of every scored candidate is the sum
  of \<open>raw_score * scale\<close> over the critics with non-zero scale, in critic-list order;
  and the evaluation loop ends in the same way with short-circuit enabled as with it
  disabled: the same best candidate (trajectory, critic scores and total), or the same
  failure when no candidate is legal.
\<close>

theorem short_circuit_same_best:
  assumes "list_all (nonneg_on critics) trajs"
  shows "(\<forall>tr bs r. scoreTrajectory False critics tr bs = Inr r \<longrightarrow> total r = weighted_sum critics tr) \<and>
         fst (coreScoringAlgorithm True critics trajs res) = fst (coreScoringAlgorithm False critics trajs res)"
proof
  show "\<forall>tr bs r. scoreTrajectory False critics tr bs = Inr r \<longrightarrow> total r = weighted_sum critics tr"
    using score_critics_total by (fastforce simp: scoreTrajectory_def)
  from scoring_loop_sync[OF assms sync_initial, of res]
  show "fst (coreScoringAlgorithm True critics trajs res) = fst (coreScoringAlgorithm False critics trajs res)"
    by (auto simp: coreScoringAlgorithm_def sync_def Let_def)
qed

theorem short_circuit_same_best_witness:
  "list_all (nonneg_on [speed_critic, bias_critic]) [traj_of 1, traj_of 5, traj_of 2] \<and>
   fst (coreScoringAlgorithm True [speed_critic, bias_critic] [traj_of 1, traj_of 5, traj_of 2] None) =
   fst (coreScoringAlgorithm False [speed_critic, bias_critic] [traj_of 1, traj_of 5, traj_of 2] None) \<and>
   fst (coreScoringAlgorithm True [speed_critic, bias_critic] [traj_of 1, traj_of 5, traj_of 2] None) =
     Inr \<lparr>traj = traj_of 1,
          scores = [\<lparr>name = ''speed'', raw_score = 1, scale = 1\<rparr>,
                    \<lparr>name = ''bias'', raw_score = 1, scale = 2\<rparr>],
          total = 3\<rparr> \<and>
   worst (scoring_loop True [speed_critic, bias_critic] [traj_of 1, traj_of 5, traj_of 2]
            (initial_scoring_state None)) \<noteq>
   worst (scoring_loop False [speed_critic, bias_critic] [traj_of 1, traj_of 5, traj_of 2]
            (initial_scoring_state None))"
  using short_circuit_same_best[of "[speed_critic, bias_critic]" "[traj_of 1, traj_of 5, traj_of 2]" None]
  by (simp add: scoring_example_defs)

section \<open>The sentinel of best and worst\<close>

lemma worst_scoring_step:
  "worst (scoring_step sc critics st tr) =
     (case scoreTrajectory sc critics tr (total (best st)) of
        Inl e \<Rightarrow> worst st
      | Inr score \<Rightarrow> if total (worst st) < 0 \<or> total score > total (worst st) then score else worst st)"
  by (simp add: scoring_step_def Let_def split: sum.splits)

lemma tracker_scoring_step:
  "the_tracker (scoring_step sc critics st tr) =
     (case scoreTrajectory sc critics tr (total (best st)) of
        Inl e \<Rightarrow> addIllegalTrajectory e (the_tracker st)
      | Inr score \<Rightarrow> addLegalTrajectory (the_tracker st))"
  by (simp add: scoring_step_def Let_def split: sum.splits)

lemma addIllegalTrajectory_counts:
  "legal_count (addIllegalTrajectory e t) = legal_count t"
  "illegal_count (addIllegalTrajectory e t) = Suc (illegal_count t)"
  by (cases e; simp)+

lemma no_negative_step:
  assumes "nonneg_on critics tr" "no_negative_installed st"
  shows "no_negative_installed (scoring_step sc critics st tr)"
  using assms(2) scoreTrajectory_nonneg[OF assms(1), of sc "total (best st)"]
  unfolding no_negative_installed_def best_scoring_step worst_scoring_step
  by (auto split: sum.splits)

lemma no_negative_loop:
  "list_all (nonneg_on critics) trajs \<Longrightarrow> no_negative_installed st \<Longrightarrow>
   no_negative_installed (scoring_loop sc critics trajs st)"
  unfolding scoring_loop_def
  by (induction trajs arbitrary: st) (simp_all add: no_negative_step)

lemma list_all_take: "list_all P xs \<Longrightarrow> list_all P (take k xs)"
  by (auto simp: list_all_iff dest: in_set_takeD)

lemma unset_iff_negative:
  "no_negative_installed st \<Longrightarrow> total (best st) < 0 \<longleftrightarrow> best st = unset_score"
  "no_negative_installed st \<Longrightarrow> total (worst st) < 0 \<longleftrightarrow> worst st = unset_score"
  by (auto simp: no_negative_installed_def unset_score_def split: if_splits)

text \<open>
  Claim C4, as the code has it. The best score that a cycle returns never has a
  negative total. If every critic's scale and raw score are non-negative on the
  candidates, then the state \<open>st\<close> of the loop after any number \<open>k\<close> of candidates holds,
  as best and as worst, the initial sentinel or a score whose total is not negative;
  and the next candidate overwrites the best exactly when the best is still the
  sentinel or the candidate's total is strictly smaller (the worst: strictly greater).
  Without that assumption a legal candidate with a negative total is installed as best
  and as worst (see the counterexample): the loop overwrites whenever the current total
  is below 0, whatever the candidate's total is.
\<close>

theorem negative_total_never_best:
  assumes st: "st = scoring_loop sc critics (take k trajs) (initial_scoring_state res)"
  shows "(case fst (coreScoringAlgorithm sc critics trajs res) of Inr b \<Rightarrow> 0 \<le> total b | Inl e \<Rightarrow> True) \<and>
   (list_all (nonneg_on critics) trajs \<longrightarrow>
      no_negative_installed st \<and>
      best (scoring_step sc critics st tr) =
        (case scoreTrajectory sc critics tr (total (best st)) of
           Inl e \<Rightarrow> best st
         | Inr score \<Rightarrow>
             if best st = unset_score \<or> total score < total (best st) then score else best st) \<and>
      worst (scoring_step sc critics st tr) =
        (case scoreTrajectory sc critics tr (total (best st)) of
           Inl e \<Rightarrow> worst st
         | Inr score \<Rightarrow>
             if worst st = unset_score \<or> total score > total (worst st) then score else worst st))"
proof
  show "case fst (coreScoringAlgorithm sc critics trajs res) of Inr b \<Rightarrow> 0 \<le> total b | Inl e \<Rightarrow> True"
    by (simp add: coreScoringAlgorithm_def Let_def)
  have init: "no_negative_installed (initial_scoring_state res)"
    by (simp add: no_negative_installed_def initial_scoring_state_def)
  show "list_all (nonneg_on critics) trajs \<longrightarrow>
      no_negative_installed st \<and>
      best (scoring_step sc critics st tr) =
        (case scoreTrajectory sc critics tr (total (best st)) of
           Inl e \<Rightarrow> best st
         | Inr score \<Rightarrow>
             if best st = unset_score \<or> total score < total (best st) then score else best st) \<and>
      worst (scoring_step sc critics st tr) =
        (case scoreTrajectory sc critics tr (total (best st)) of
           Inl e \<Rightarrow> worst st
         | Inr score \<Rightarrow>
             if worst st = unset_score \<or> total score > total (worst st) then score else worst st)"
  proof
    assume "list_all (nonneg_on critics) trajs"
    then have inv: "no_negative_installed st"
      unfolding st using no_negative_loop[OF list_all_take init] by blast
    from unset_iff_negative[OF inv] inv show "no_negative_installed st \<and>
      best (scoring_step sc critics st tr) =
        (case scoreTrajectory sc critics tr (total (best st)) of
           Inl e \<Rightarrow> best st
         | Inr score \<Rightarrow>
             if best st = unset_score \<or> total score < total (best st) then score else best st) \<and>
      worst (scoring_step sc critics st tr) =
        (case scoreTrajectory sc critics tr (total (best st)) of
           Inl e \<Rightarrow> worst st
         | Inr score \<Rightarrow>
             if worst st = unset_score \<or> total score > total (worst st) then score else worst st)"
      by (simp add: best_scoring_step worst_scoring_step split: sum.splits)
  qed
qed

theorem negative_total_never_best_witness:
  "list_all (nonneg_on [speed_critic, bias_critic]) [traj_of 1, traj_of 5, traj_of 2] \<and>
   no_negative_installed
     (scoring_loop True [speed_critic, bias_critic] (take 2 [traj_of 1, traj_of 5, traj_of 2])
        (initial_scoring_state None)) \<and>
   total (worst (scoring_loop True [speed_critic, bias_critic] (take 2 [traj_of 1, traj_of 5, traj_of 2])
        (initial_scoring_state None))) = 5 \<and>
   total (best (scoring_step True [speed_critic, bias_critic]
      (scoring_loop True [speed_critic, bias_critic] (take 2 [traj_of 1, traj_of 5, traj_of 2])
        (initial_scoring_state None)) (traj_of 2))) = 3"
  using negative_total_never_best[OF refl, of True "[speed_critic, bias_critic]"
      "[traj_of 1, traj_of 5, traj_of 2]" None 2 "traj_of 2"]
  by (simp add: scoring_example_defs)

text \<open>
  One critic of scale 1 that scores every trajectory \<open>- 5\<close>, one candidate: the candidate
  is scored legally with total \<open>- 5\<close>, and that score is stored as best and as worst.
\<close>

theorem negative_total_installed_counterexample:
  "total (best (scoring_loop False [negative_critic] [traj_of 1] (initial_scoring_state None))) = - 5 \<and>
   total (worst (scoring_loop False [negative_critic] [traj_of 1] (initial_scoring_state None))) = - 5 \<and>
   traj (best (scoring_loop False [negative_critic] [traj_of 1] (initial_scoring_state None))) = traj_of 1"
  by (simp add: scoring_example_defs)

section \<open>Failure of a cycle\<close>

lemma cycle_inv_step:
  assumes nn: "nonneg_on critics tr" and inv: "cycle_inv critics seen st"
  shows "cycle_inv critics (seen @ [tr]) (scoring_step sc critics st tr)"
proof (cases "list_ex (legal critics) seen")
  case True
  with inv have "0 \<le> total (best st)" by (simp add: cycle_inv_def)
  with True scoreTrajectory_nonneg[OF nn, of sc "total (best st)"] show ?thesis
    unfolding cycle_inv_def best_scoring_step by (auto split: sum.splits)
next
  case False
  with inv have b: "total (best st) < 0" and l: "legal_count (the_tracker st) = 0"
    and i: "illegal_count (the_tracker st) = length seen"
    by (simp_all add: cycle_inv_def)
  from b have "\<not> 0 < total (best st)" by simp
  from score_critics_no_best[OF this]
  have eq: "scoreTrajectory sc critics tr (total (best st)) = scoreTrajectory False critics tr 0"
    by (simp add: scoreTrajectory_def)
  show ?thesis
  proof (cases "scoreTrajectory False critics tr 0")
    case (Inl e)
    then have "\<not> legal critics tr" by (simp add: legal_def)
    with False Inl b l i show ?thesis
      unfolding cycle_inv_def best_scoring_step tracker_scoring_step eq
      by (simp add: addIllegalTrajectory_counts)
  next
    case (Inr s)
    then have "legal critics tr" by (simp add: legal_def)
    moreover from Inr scoreTrajectory_nonneg[OF nn] have "0 \<le> total s" by blast
    ultimately show ?thesis
      using b Inr unfolding cycle_inv_def best_scoring_step eq by simp
  qed
qed

lemma cycle_inv_loop:
  "list_all (nonneg_on critics) trajs \<Longrightarrow> cycle_inv critics seen st \<Longrightarrow>
   cycle_inv critics (seen @ trajs) (scoring_loop sc critics trajs st)"
  unfolding scoring_loop_def
proof (induction trajs arbitrary: seen st)
  case Nil
  then show ?case by simp
next
  case (Cons tr trajs)
  from Cons.prems have "cycle_inv critics (seen @ [tr]) (scoring_step sc critics st tr)"
    by (simp add: cycle_inv_step)
  from Cons.IH[OF _ this] Cons.prems(1) show ?case by simp
qed

lemma cycle_inv_initial: "cycle_inv critics [] (initial_scoring_state res)"
  by (simp add: cycle_inv_def initial_scoring_state_def unset_score_def new_tracker_def)

text \<open>
  Claim C5, as the code has it. Assume every critic's scale and raw score are
  non-negative on the candidates. If some candidate is legal, the cycle returns a best
  score, whose total is not negative. If none is, the cycle fails with
  \<open>NoLegalTrajectoriesException\<close>, which carries the tracker of the loop: no legal
  trajectory, and as many illegal ones as there were candidates. Without the assumption
  the cycle also fails when the last best candidate has a negative total (see the
  counterexample).
\<close>

theorem no_legal_trajectories_iff:
  assumes "list_all (nonneg_on critics) trajs"
  shows "(if list_ex (legal critics) trajs
          then \<exists>b. fst (coreScoringAlgorithm sc critics trajs res) = Inr b \<and> 0 \<le> total b
          else \<exists>t. fst (coreScoringAlgorithm sc critics trajs res) = Inl (NoLegalTrajectoriesException t) \<and>
                   t = the_tracker (scoring_loop sc critics trajs (initial_scoring_state res)) \<and>
                   legal_count t = 0 \<and> illegal_count t = length trajs)"
  using cycle_inv_loop[OF assms cycle_inv_initial, of sc res]
  by (auto simp: cycle_inv_def coreScoringAlgorithm_def Let_def)

theorem no_legal_trajectories_iff_witness:
  "list_all (nonneg_on [rejecting_critic]) [traj_of 1, traj_of 5] \<and>
   fst (coreScoringAlgorithm True [rejecting_critic] [traj_of 1, traj_of 5] None) =
     Inl (NoLegalTrajectoriesException
            \<lparr>legal_count = 0, illegal_count = 2, counts = [((''obstacle'', ''collision''), 2)]\<rparr>)"
  using no_legal_trajectories_iff[of "[rejecting_critic]" "[traj_of 1, traj_of 5]" True None]
  by (simp add: scoring_example_defs)

text \<open>
  The candidate is legal (the tracker counts it so), and the cycle fails all the same.
\<close>

theorem legal_candidate_yet_failure_counterexample:
  "legal [negative_critic] (traj_of 2) \<and>
   fst (coreScoringAlgorithm True [negative_critic] [traj_of 2] None) =
     Inl (NoLegalTrajectoriesException \<lparr>legal_count = 1, illegal_count = 0, counts = []\<rparr>)"
  by (simp add: scoring_example_defs)

section \<open>Properties of the path segmenter\<close>

lemma extend_segment_append:
  "extend_segment bw rot segment copy = (segment', copy') \<Longrightarrow> segment \<noteq> [] \<Longrightarrow>
   segment' @ tl copy' = segment @ copy \<and> length segment \<le> length segment' \<and>
   (copy' = [] \<or> (hd copy' = last segment' \<and> 2 \<le> length copy'))"
proof (induction copy arbitrary: segment)
  case Nil
  then show ?case by auto
next
  case (Cons p copy)
  show ?case
  proof (cases "backwards (last segment) p = bw \<and> onlyRotation (last segment) p = rot")
    case True
    with Cons.prems have "extend_segment bw rot (segment @ [p]) copy = (segment', copy')"
      by simp
    from Cons.IH[OF this] show ?thesis by auto
  next
    case False
    with Cons.prems show ?thesis by auto
  qed
qed

lemma split_loop_acc: "split_loop hdr copy segments = segments @ split_loop hdr copy []"
proof (induction "length copy" arbitrary: copy segments rule: less_induct)
  case less
  show ?case
  proof (cases copy)
    case Nil
    then show ?thesis by simp
  next
    case (Cons p0 copy1)
    show ?thesis
    proof (cases copy1)
      case Nil
      with Cons show ?thesis by simp
    next
      case (Cons p1 rest)
      let ?r = "extend_segment (backwards p0 p1) (onlyRotation p0 p1) [p0, p1] rest"
      let ?seg = "\<lparr>path_header = hdr, poses = fst ?r\<rparr>"
      have c: "copy = p0 # p1 # rest" using \<open>copy = p0 # copy1\<close> Cons by simp
      have "length (snd ?r) < length copy"
        using length_extend_segment[of "backwards p0 p1" "onlyRotation p0 p1" "[p0, p1]" rest] c
        by simp
      note IH = less[OF this]
      have "split_loop hdr copy segments = split_loop hdr (snd ?r) (segments @ [?seg])"
        by (simp add: c Let_def)
      also have "\<dots> = (segments @ [?seg]) @ split_loop hdr (snd ?r) []"
        by (rule IH)
      also have "\<dots> = segments @ split_loop hdr (snd ?r) ([] @ [?seg])"
        using IH[of "[] @ [?seg]"] by simp
      also have "split_loop hdr (snd ?r) ([] @ [?seg]) = split_loop hdr copy []"
        by (simp add: c Let_def)
      finally show ?thesis .
    qed
  qed
qed

lemma split_loop_Cons:
  "split_loop hdr (p0 # p1 # rest) [] =
     (let r = extend_segment (backwards p0 p1) (onlyRotation p0 p1) [p0, p1] rest
      in \<lparr>path_header = hdr, poses = fst r\<rparr> # split_loop hdr (snd r) [])"
  using split_loop_acc[of hdr "snd (extend_segment (backwards p0 p1) (onlyRotation p0 p1) [p0, p1] rest)"
      "[\<lparr>path_header = hdr, poses = fst (extend_segment (backwards p0 p1) (onlyRotation p0 p1) [p0, p1] rest)\<rparr>]"]
  by (simp add: Let_def)

lemma tl_rejoin:
  "segs \<noteq> [] \<Longrightarrow> poses (hd segs) \<noteq> [] \<Longrightarrow>
   concat (map (\<lambda>s. tl (poses s)) segs) = tl (rejoin segs)"
  by (cases segs) simp_all

lemma hd_rejoin:
  "segs \<noteq> [] \<Longrightarrow> poses (hd segs) \<noteq> [] \<Longrightarrow> hd (rejoin segs) = hd (poses (hd segs))"
  by (cases segs) simp_all

lemma split_loop_well_split:
  "2 \<le> length copy \<Longrightarrow> well_split hdr copy (split_loop hdr copy [])"
proof (induction "length copy" arbitrary: copy rule: less_induct)
  case less
  from less.prems obtain p0 p1 rest where c: "copy = p0 # p1 # rest"
    by (cases copy; cases "tl copy") auto
  obtain seg copy' where r: "extend_segment (backwards p0 p1) (onlyRotation p0 p1) [p0, p1] rest = (seg, copy')"
    by fastforce
  from extend_segment_append[OF r]
  have app: "seg @ tl copy' = copy" and len: "2 \<le> length seg"
    and rest: "copy' = [] \<or> (hd copy' = last seg \<and> 2 \<le> length copy')"
    using c by auto
  have out: "split_loop hdr copy [] = \<lparr>path_header = hdr, poses = seg\<rparr> # split_loop hdr copy' []"
    using r split_loop_Cons[of hdr p0 p1 rest] by (simp add: c Let_def del: split_loop.simps)
  show ?case
  proof (cases "copy' = []")
    case True
    with out app len show ?thesis by (simp add: well_split_def)
  next
    case False
    with rest have h: "hd copy' = last seg" and l2: "2 \<le> length copy'" by auto
    have "length copy' < length copy"
      using length_extend_segment[of "backwards p0 p1" "onlyRotation p0 p1" "[p0, p1]" rest] r c
      by simp
    from less.hyps[OF this l2] have ws: "well_split hdr copy' (split_loop hdr copy' [])" .
    let ?S = "split_loop hdr copy' []"
    from ws have ne: "?S \<noteq> []" and rj: "rejoin ?S = copy'" and ov: "overlapping ?S"
      and all: "list_all (\<lambda>seg. path_header seg = hdr \<and> 2 \<le> length (poses seg)) ?S"
      by (simp_all add: well_split_def)
    from ne all have p: "poses (hd ?S) \<noteq> []" by (cases ?S) auto
    have "concat (map (\<lambda>s. tl (poses s)) ?S) = tl copy'"
      using tl_rejoin[OF ne p] rj by simp
    then have 1: "rejoin (split_loop hdr copy []) = copy"
      using out app by simp
    have "hd (poses (hd ?S)) = last seg"
      using hd_rejoin[OF ne p] rj h by simp
    then have 2: "overlapping (split_loop hdr copy [])"
      using out ov ne p len by (cases ?S) auto
    show ?thesis
      unfolding well_split_def using 1 2 out all len by simp
  qed
qed

lemma split_loop_short: "length copy < 2 \<Longrightarrow> split_loop hdr copy segments = segments"
  by (cases copy; cases "tl copy") auto

lemma setPlan_segments_nonempty:
  assumes "setPlan split_path critics path s = Inr s'"
  shows "poses (global_plan s') \<noteq> [] \<and> list_all (\<lambda>seg. poses seg \<noteq> []) (global_plan_segments s')"
proof (cases "split_path \<and> 2 \<le> length (poses path)")
  case True
  from split_loop_well_split[of "poses path" "path_header path"] True
  have ws: "well_split (path_header path) (poses path) (split_loop (path_header path) (poses path) [])"
    by simp
  then obtain seg rest where S: "split_loop (path_header path) (poses path) [] = seg # rest"
    by (cases "split_loop (path_header path) (poses path) []") (auto simp: well_split_def)
  from ws S have all: "list_all (\<lambda>seg. 2 \<le> length (poses seg)) (seg # rest)"
    by (simp add: well_split_def list_all_iff)
  then have "list_all (\<lambda>seg. poses seg \<noteq> []) (seg # rest)"
    by (auto simp: list_all_iff)
  with assms True S show ?thesis
    by (auto simp: setPlan_def Let_def resetPlugins_def publishGlobalPlan_def split: if_splits)
next
  case False
  then consider "\<not> split_path" | "split_path" "length (poses path) < 2" by fastforce
  then show ?thesis
  proof cases
    case 1
    with assms show ?thesis
      by (auto simp: setPlan_def Let_def resetPlugins_def publishGlobalPlan_def split: if_splits)
  next
    case 2
    with assms show ?thesis
      by (simp add: setPlan_def Let_def split_loop_short)
  qed
qed

text \<open>
  Claim C2. For a path of at least two poses and with \<open>split_path\<close> enabled, \<open>setPlan\<close>
  succeeds, and the segments it leaves (the active plan followed by the queue) rejoin to
  the poses of the path: concatenated, with the first pose of every segment after the
  first dropped, they are the original poses, in order. Consecutive segments overlap in
  the cut pose, and every segment carries the header of the path and has at least two
  poses.
\<close>

theorem setPlan_split_rejoin:
  assumes "2 \<le> length (poses path)"
  shows "\<exists>s'. setPlan True critics path s = Inr s' \<and>
              well_split (path_header path) (poses path) (global_plan s' # global_plan_segments s')"
proof -
  let ?S = "split_loop (path_header path) (poses path) []"
  from split_loop_well_split[OF assms] have ws: "well_split (path_header path) (poses path) ?S" .
  then obtain seg rest where S: "?S = seg # rest" by (cases ?S) (auto simp: well_split_def)
  with ws have "poses seg \<noteq> []" by (auto simp: well_split_def)
  with S ws show ?thesis
    by (simp add: setPlan_def Let_def resetPlugins_def publishGlobalPlan_def)
qed

theorem setPlan_split_rejoin_witness:
  "2 \<le> length (poses (scenario_path map_header)) \<and>
   (\<exists>s'. setPlan True [] (scenario_path map_header)
           (tracking_state ''map'' [mk_pose 0 0 0, mk_pose 1 0 0] []) = Inr s' \<and>
         well_split map_header (poses (scenario_path map_header))
           (global_plan s' # global_plan_segments s'))"
  using setPlan_split_rejoin[of "scenario_path map_header" "[]"
      "tracking_state ''map'' [mk_pose 0 0 0, mk_pose 1 0 0] []"]
  by (simp add: scenario_path_def)

lemma scenario_dotproducts:
  "dotproduct (mk_pose 0 0 0) (mk_pose 1 0 0) = 1"
  "dotproduct (mk_pose 1 0 0) (mk_pose 2 0 0) = 1"
  "dotproduct (mk_pose 2 0 0) (mk_pose 2 1 (157 / 100)) = 0"
  by (simp_all add: dotproduct_def mk_pose_def)

text \<open>
  Claim C8. For the path \<open>[(0,0,0), (1,0,0), (2,0,0), (2,1,1.57)]\<close> with \<open>split_path\<close>
  enabled, \<open>setPlan\<close> produces exactly two segments: the active plan
  \<open>[(0,0,0), (1,0,0), (2,0,0)]\<close>, which runs forward, and one queued segment
  \<open>[(2,0,0), (2,1,1.57)]\<close>. The cut is there because the transition from \<open>(2,0,0)\<close> to
  \<open>(2,1,1.57)\<close> has dot product 0 with the heading at \<open>(2,0,0)\<close>, so that
  \<open>d * d < 1e-10\<close> and the transition counts as rotation, unlike the transitions
  before it.
\<close>

theorem scenario_two_segments:
  "dotproduct (mk_pose 2 0 0) (mk_pose 2 1 (157 / 100)) = 0 \<and>
   onlyRotation (mk_pose 2 0 0) (mk_pose 2 1 (157 / 100)) \<and>
   \<not> onlyRotation (mk_pose 1 0 0) (mk_pose 2 0 0) \<and>
   \<not> backwards (mk_pose 1 0 0) (mk_pose 2 0 0) \<and>
   split_loop hdr (poses (scenario_path hdr)) [] =
     [\<lparr>path_header = hdr, poses = [mk_pose 0 0 0, mk_pose 1 0 0, mk_pose 2 0 0]\<rparr>,
      \<lparr>path_header = hdr, poses = [mk_pose 2 0 0, mk_pose 2 1 (157 / 100)]\<rparr>] \<and>
   (\<exists>s'. setPlan True critics (scenario_path hdr) s = Inr s' \<and>
     global_plan s' =
       \<lparr>path_header = hdr, poses = [mk_pose 0 0 0, mk_pose 1 0 0, mk_pose 2 0 0]\<rparr> \<and>
     global_plan_segments s' =
       [\<lparr>path_header = hdr, poses = [mk_pose 2 0 0, mk_pose 2 1 (157 / 100)]\<rparr>])"
  by (simp add: setPlan_def scenario_path_def Let_def scenario_dotproducts backwards_def
      onlyRotation_def resetPlugins_def publishGlobalPlan_def)

section \<open>Properties of the segment and goal state machine\<close>

text \<open>
  The segments that \<open>setPlan\<close> queues have poses, and \<open>isGoalReached\<close> keeps it so:
  in every state the planner reaches, no queued segment is empty.
\<close>

lemma isGoalReached_segments_nonempty:
  assumes "isGoalReached e critics p vel s = Inr (b, s')"
    and "list_all (\<lambda>seg. poses seg \<noteq> []) (global_plan_segments s)"
  shows "list_all (\<lambda>seg. poses seg \<noteq> []) (global_plan_segments s')"
  using assms
  by (auto simp: isGoalReached_def activate_next_segment_def Let_def resetPlugins_def
      publishGlobalPlan_def split: if_splits list.splits)

text \<open>
  Claim C9. If no goal was ever set (the frame id of the stored goal pose is empty),
  \<open>isGoalReached\<close> returns false and the state it leaves is the state it found: the
  plan, the queue, both goal poses with their stamps, and the trace of calls, to which
  neither a call of the goal checker nor a reset of a plugin was added.
\<close>

theorem isGoalReached_no_goal:
  assumes "frame_id (pose_header (goal_pose s)) = []"
  shows "isGoalReached e critics p vel s = Inr (False, s)"
  using assms by (simp add: isGoalReached_def)

theorem isGoalReached_no_goal_witness:
  "frame_id (pose_header (goal_pose (tracking_state [] [mk_pose 0 0 0, mk_pose 1 0 0] []))) = [] \<and>
   isGoalReached identity_env [] (robot_at 1 0) empty_twist
       (tracking_state [] [mk_pose 0 0 0, mk_pose 1 0 0] [])
     = Inr (False, tracking_state [] [mk_pose 0 0 0, mk_pose 1 0 0] [])"
  using isGoalReached_no_goal[of "tracking_state [] [mk_pose 0 0 0, mk_pose 1 0 0] []"
      identity_env "[]" "robot_at 1 0" empty_twist]
  by (simp add: tracking_state_def)

text \<open>
  Claim C3. In a state with a goal set and no empty segment in the queue, let the goal
  checker report that the goal is reached. If the queue is empty, \<open>isGoalReached\<close>
  returns true. Otherwise it returns false; the front segment has left the queue and is
  the active plan, the intermediate goal is that segment's last pose (under that
  segment's header), and the plugins are reset in a state \<open>s0\<close> in which the new plan
  is already committed: the final state is \<open>resetPlugins\<close> applied after the plan was
  published, and in the trace the resets come last.
\<close>

theorem isGoalReached_advances:
  assumes goal: "frame_id (pose_header (goal_pose s)) \<noteq> []"
    and reached: "reports_reached e p vel s"
    and wf: "list_all (\<lambda>seg. poses seg \<noteq> []) (global_plan_segments s)"
  shows "(if global_plan_segments s = [] then
            isGoalReached e critics p vel s = Inr (True, goal_check_state e p vel s)
          else
            (\<exists>s0 s'. isGoalReached e critics p vel s = Inr (False, s') \<and>
               s0 = commit_front_segment (goal_check_state e p vel s) \<and>
               s' = resetPlugins critics (publishGlobalPlan s0) \<and>
               global_plan s0 = hd (global_plan_segments s) \<and>
               global_plan s' = hd (global_plan_segments s) \<and>
               global_plan_segments s' = tl (global_plan_segments s) \<and>
               pose (intermediate_goal_pose s') = last (poses (hd (global_plan_segments s))) \<and>
               pose_header (intermediate_goal_pose s') = path_header (hd (global_plan_segments s)) \<and>
               goal_pose s' = set_stamp (stamp (pose_header p)) (goal_pose s) \<and>
               effects s' = effects (goal_check_state e p vel s) @
                 [PublishGlobalPlan (hd (global_plan_segments s)), ResetGenerator, ResetGoalChecker] @
                 map (\<lambda>c. ResetCritic (getName c)) critics))"
proof (cases "global_plan_segments s")
  case Nil
  with goal reached show ?thesis
    by (simp add: isGoalReached_def reports_reached_def goal_check_state_def Let_def)
next
  case (Cons seg rest)
  with wf have "poses seg \<noteq> []" by simp
  with Cons goal reached show ?thesis
    by (simp add: isGoalReached_def reports_reached_def activate_next_segment_def Let_def
        goal_check_state_def resetPlugins_def publishGlobalPlan_def commit_front_segment_def)
qed

theorem isGoalReached_advances_witness:
  "frame_id (pose_header (goal_pose
      (tracking_state ''map'' [mk_pose 0 0 0, mk_pose 1 0 0] [second_segment]))) \<noteq> [] \<and>
   reports_reached identity_env (robot_at 1 0) empty_twist
      (tracking_state ''map'' [mk_pose 0 0 0, mk_pose 1 0 0] [second_segment]) \<and>
   list_all (\<lambda>seg. poses seg \<noteq> [])
      (global_plan_segments (tracking_state ''map'' [mk_pose 0 0 0, mk_pose 1 0 0] [second_segment])) \<and>
   (\<exists>s'. isGoalReached identity_env [] (robot_at 1 0) empty_twist
           (tracking_state ''map'' [mk_pose 0 0 0, mk_pose 1 0 0] [second_segment]) = Inr (False, s') \<and>
         global_plan s' = second_segment \<and> global_plan_segments s' = [] \<and>
         pose (intermediate_goal_pose s') = mk_pose 1 1 0 \<and>
         effects s' = [GoalCheckerCalled (mk_pose 1 0 0) (mk_pose 1 0 0) empty_twist,
                       PublishGlobalPlan second_segment, ResetGenerator, ResetGoalChecker])"
proof -
  let ?s = "tracking_state ''map'' [mk_pose 0 0 0, mk_pose 1 0 0] [second_segment]"
  have g: "frame_id (pose_header (goal_pose ?s)) \<noteq> []"
    by (simp add: tracking_state_def)
  have r: "reports_reached identity_env (robot_at 1 0) empty_twist ?s"
    by (simp add: planner_example_defs)
  have w: "list_all (\<lambda>seg. poses seg \<noteq> []) (global_plan_segments ?s)"
    by (simp add: tracking_state_def second_segment_def)
  from isGoalReached_advances[OF g r w, of "[]"] g r w show ?thesis
    by (simp add: planner_example_defs)
qed

section \<open>Properties of the plan transformer\<close>

subsection \<open>The window\<close>

lemma window_loop_started:
  "acc \<noteq> [] \<Longrightarrow>
   window_loop robot (t * t) f ps acc =
     acc @ map f (takeWhile (\<lambda>p. \<not> beyond robot t p) ps @
                  take 1 (dropWhile (\<lambda>p. \<not> beyond robot t p) ps))"
  by (induction ps arbitrary: acc) (simp_all add: beyond_def)

lemma window_loop_spec:
  "window_loop robot (t * t) f ps [] = map f (window_spec robot t ps)"
proof (induction ps)
  case Nil
  then show ?case by (simp add: window_spec_def)
next
  case (Cons p ps)
  show ?case
  proof (cases "beyond robot t p")
    case True
    with Cons show ?thesis by (simp add: window_spec_def beyond_def)
  next
    case False
    then have "window_loop robot (t * t) f (p # ps) [] = window_loop robot (t * t) f ps [f p]"
      by (simp add: beyond_def)
    with False show ?thesis
      by (simp add: window_loop_started window_spec_def)
  qed
qed

lemma length_takeWhile_dropWhile:
  "length (takeWhile P xs) + length (dropWhile P xs) = length xs"
  by (induction xs) simp_all

lemma length_window_spec: "length (window_spec robot t ps) \<le> length ps"
proof -
  let ?rest = "dropWhile (beyond robot t) ps"
  let ?near = "\<lambda>p. \<not> beyond robot t p"
  have "length (takeWhile ?near ?rest) + length (dropWhile ?near ?rest) = length ?rest"
    by (rule length_takeWhile_dropWhile)
  then have "length (takeWhile ?near ?rest) + length (take 1 (dropWhile ?near ?rest)) \<le> length ?rest"
    by simp
  moreover have "length ?rest \<le> length ps" by (rule length_dropWhile_le)
  ultimately show ?thesis by (simp add: window_spec_def Let_def)
qed

lemma windowed_plan_spec:
  "windowed_plan e robot_pose plan =
     map (to_costmap_frame e (frame_id (path_header plan)))
         (window_spec (pose robot_pose) (dist_threshold e) (poses plan))"
  unfolding windowed_plan_def using window_loop_spec
  by (simp add: to_costmap_frame_def)

lemma length_windowed_plan: "length (windowed_plan e robot_pose plan) \<le> length (poses plan)"
  by (simp add: windowed_plan_spec length_window_spec)

text \<open>
  Claim C6. For a stored plan that is not empty, with the robot's pose resolved into
  the plan's frame, the poses the window pass produces are the costmap-frame images of
  the window in words, taken with the threshold
  \<open>max (width, height) * resolution / 2\<close> and squared distances to the robot: the
  leading poses beyond the threshold are skipped, the poses within it are taken, and the
  first pose beyond it that follows ends the walk and is part of the output. Without
  pruning, \<open>transformGlobalPlan\<close> returns exactly these poses (and fails when there are
  none), leaving the state as it was.
\<close>

theorem transform_window:
  assumes "poses (global_plan s) \<noteq> []"
    and "transformPose e (frame_id (path_header (global_plan s))) p = Some robot_pose"
  shows "windowed_plan e robot_pose (global_plan s) =
           map (to_costmap_frame e (frame_id (path_header (global_plan s))))
             (window_spec (pose robot_pose)
                (real (max (getWidth e) (getHeight e)) * getResolution e / 2)
                (poses (global_plan s))) \<and>
         transformGlobalPlan False prune_distance e p s =
           (if windowed_plan e robot_pose (global_plan s) = []
            then Inl (PlannerException ''Resulting plan has 0 poses in it.'')
            else Inr \<lparr>path_header = \<lparr>frame_id = getFrameId e, stamp = stamp (pose_header p)\<rparr>,
                      poses = windowed_plan e robot_pose (global_plan s)\<rparr>, s)"
  using assms by (simp add: windowed_plan_spec dist_threshold_def transformGlobalPlan_def)

theorem transform_window_witness:
  "poses (global_plan (tracking_state ''map''
      [mk_pose 10 0 0, mk_pose 3 0 0, mk_pose 4 0 0, mk_pose 7 0 0, mk_pose 8 0 0] [])) \<noteq> [] \<and>
   transformPose identity_env
      (frame_id (path_header (global_plan (tracking_state ''map''
         [mk_pose 10 0 0, mk_pose 3 0 0, mk_pose 4 0 0, mk_pose 7 0 0, mk_pose 8 0 0] []))))
      (robot_at 0 0) = Some (robot_at 0 0) \<and>
   fst (transformGlobalPlan False 1 identity_env (robot_at 0 0)
          (tracking_state ''map''
             [mk_pose 10 0 0, mk_pose 3 0 0, mk_pose 4 0 0, mk_pose 7 0 0, mk_pose 8 0 0] []))
     = Inr \<lparr>path_header = \<lparr>frame_id = ''odom'', stamp = 7\<rparr>,
            poses = [mk_pose 3 0 0, mk_pose 4 0 0, mk_pose 7 0 0]\<rparr>"
  using transform_window[of "tracking_state ''map''
      [mk_pose 10 0 0, mk_pose 3 0 0, mk_pose 4 0 0, mk_pose 7 0 0, mk_pose 8 0 0] []"
      identity_env "robot_at 0 0" "robot_at 0 0" 1]
  by (simp add: planner_example_defs)

subsection \<open>The prune pass\<close>

lemma prune_loop_in_bounds:
  "length transformed \<le> length global \<Longrightarrow>
   \<exists>k\<le>length transformed.
      prune_loop c sq transformed global = Some (drop k transformed, drop k global) \<and>
      list_all (\<lambda>w. \<not> getSquareDistance c w < sq) (take k transformed) \<and>
      (k < length transformed \<longrightarrow> getSquareDistance c (transformed ! k) < sq)"
proof (induction transformed arbitrary: global)
  case Nil
  then show ?case by simp
next
  case (Cons w transformed)
  show ?case
  proof (cases "getSquareDistance c w < sq")
    case True
    then show ?thesis by (intro exI[of _ 0]) simp
  next
    case False
    from Cons.prems obtain g global' where g: "global = g # global'" by (cases global) auto
    with Cons.prems have "length transformed \<le> length global'" by simp
    from Cons.IH[OF this] obtain k where k: "k \<le> length transformed"
      "prune_loop c sq transformed global' = Some (drop k transformed, drop k global')"
      "list_all (\<lambda>w. \<not> getSquareDistance c w < sq) (take k transformed)"
      "k < length transformed \<longrightarrow> getSquareDistance c (transformed ! k) < sq"
      by blast
    with False g show ?thesis by (intro exI[of _ "Suc k"]) simp
  qed
qed

lemma prune_branch:
  assumes "poses (global_plan s) \<noteq> []"
    and "transformPose e (frame_id (path_header (global_plan s))) p = Some robot_pose"
    and "transformPose e (getFrameId e) p = Some costmap_pose"
    and "prune_loop (pose costmap_pose) (pd * pd) (windowed_plan e robot_pose (global_plan s))
           (poses (global_plan s)) = Some (transformed', global')"
  shows "transformGlobalPlan True pd e p s =
           (if transformed' = [] then Inl (PlannerException ''Resulting plan has 0 poses in it.'')
            else Inr \<lparr>path_header = \<lparr>frame_id = getFrameId e, stamp = stamp (pose_header p)\<rparr>,
                      poses = transformed'\<rparr>,
            publishGlobalPlan (s\<lparr>global_plan := (global_plan s)\<lparr>poses := global'\<rparr>\<rparr>))"
  using assms by (simp add: transformGlobalPlan_def Let_def)

lemma global_plan_publish [simp]:
  "global_plan (publishGlobalPlan s) = global_plan s"
  by (simp add: publishGlobalPlan_def)

text \<open>
  Claim C7. The transformed plan that the window pass produces has at most as many poses
  as the stored plan. Hence the prune pass, which erases the first pose of both plans
  in each step, stays in bounds: run on the window and the stored plan, it removes the
  same number \<open>k\<close> of leading poses from both, none of the removed poses being nearer
  than the prune distance, and stops at the first pose that is, or when the transformed
  plan is used up. So \<open>transformGlobalPlan\<close> never answers \<open>OutOfRange\<close>, and the
  stored plan it leaves is the old one without its first \<open>k\<close> poses, for a \<open>k\<close> that is
  at most the number of poses it had.
\<close>

theorem prune_in_bounds:
  "length (windowed_plan e robot_pose (global_plan s)) \<le> length (poses (global_plan s)) \<and>
   (\<exists>k. k \<le> length (windowed_plan e robot_pose (global_plan s)) \<and>
        prune_loop c sq (windowed_plan e robot_pose (global_plan s)) (poses (global_plan s)) =
          Some (drop k (windowed_plan e robot_pose (global_plan s)), drop k (poses (global_plan s))) \<and>
        list_all (\<lambda>w. \<not> getSquareDistance c w < sq)
          (take k (windowed_plan e robot_pose (global_plan s))) \<and>
        (if k < length (windowed_plan e robot_pose (global_plan s))
         then getSquareDistance c (windowed_plan e robot_pose (global_plan s) ! k) < sq
         else True)) \<and>
   fst (transformGlobalPlan prune_plan pd e p s) \<noteq> Inl OutOfRange \<and>
   (\<exists>k. k \<le> length (poses (global_plan s)) \<and>
        poses (global_plan (snd (transformGlobalPlan prune_plan pd e p s))) =
          drop k (poses (global_plan s)))"
proof (intro conjI)
  show "length (windowed_plan e robot_pose (global_plan s)) \<le> length (poses (global_plan s))"
    by (rule length_windowed_plan)
next
  let ?W = "windowed_plan e robot_pose (global_plan s)"
  from prune_loop_in_bounds[OF length_windowed_plan, of e robot_pose "global_plan s" c sq]
  obtain k where "k \<le> length ?W"
    "prune_loop c sq ?W (poses (global_plan s)) = Some (drop k ?W, drop k (poses (global_plan s)))"
    "list_all (\<lambda>w. \<not> getSquareDistance c w < sq) (take k ?W)"
    "k < length ?W \<longrightarrow> getSquareDistance c (?W ! k) < sq"
    by blast
  then show "\<exists>k. k \<le> length ?W \<and>
        prune_loop c sq ?W (poses (global_plan s)) = Some (drop k ?W, drop k (poses (global_plan s))) \<and>
        list_all (\<lambda>w. \<not> getSquareDistance c w < sq) (take k ?W) \<and>
        (if k < length ?W then getSquareDistance c (?W ! k) < sq else True)"
    by (intro exI[of _ k]) simp
next
  let ?T = "transformGlobalPlan prune_plan pd e p s"
  let ?gp = "poses (global_plan s)"
  have "fst ?T \<noteq> Inl OutOfRange \<and> (\<exists>k. k \<le> length ?gp \<and> poses (global_plan (snd ?T)) = drop k ?gp)"
  proof (cases "prune_plan \<and> ?gp \<noteq> [] \<and>
      (\<exists>rp cp. transformPose e (frame_id (path_header (global_plan s))) p = Some rp \<and>
         transformPose e (getFrameId e) p = Some cp)")
    case False
    then have "fst ?T \<noteq> Inl OutOfRange \<and> snd ?T = s"
      by (auto simp: transformGlobalPlan_def Let_def split: option.splits)
    then show ?thesis by (intro conjI exI[of _ 0]) simp_all
  next
    case True
    then obtain rp cp where pp: "prune_plan" and ne: "?gp \<noteq> []"
      and rp: "transformPose e (frame_id (path_header (global_plan s))) p = Some rp"
      and cp: "transformPose e (getFrameId e) p = Some cp" by blast
    from prune_loop_in_bounds[OF length_windowed_plan, of e rp "global_plan s" "pose cp" "pd * pd"]
    obtain k where k: "k \<le> length (windowed_plan e rp (global_plan s))"
      and pl: "prune_loop (pose cp) (pd * pd) (windowed_plan e rp (global_plan s)) ?gp
                = Some (drop k (windowed_plan e rp (global_plan s)), drop k ?gp)"
      by blast
    from k length_windowed_plan[of e rp "global_plan s"] have "k \<le> length ?gp" by simp
    with prune_branch[OF ne rp cp pl] pp show ?thesis by auto
  qed
  then show "fst ?T \<noteq> Inl OutOfRange"
    and "\<exists>k. k \<le> length ?gp \<and> poses (global_plan (snd ?T)) = drop k ?gp"
    by simp_all
qed

theorem prune_in_bounds_witness:
  "fst (transformGlobalPlan True 1 identity_env (robot_at 0 0)
          (tracking_state ''map'' [mk_pose 3 0 0, mk_pose (1 / 2) 0 0, mk_pose 4 0 0] []))
     = Inr \<lparr>path_header = \<lparr>frame_id = ''odom'', stamp = 7\<rparr>,
            poses = [mk_pose (1 / 2) 0 0, mk_pose 4 0 0]\<rparr> \<and>
   poses (global_plan (snd (transformGlobalPlan True 1 identity_env (robot_at 0 0)
          (tracking_state ''map'' [mk_pose 3 0 0, mk_pose (1 / 2) 0 0, mk_pose 4 0 0] []))))
     = [mk_pose (1 / 2) 0 0, mk_pose 4 0 0] \<and>
   fst (transformGlobalPlan True 1 identity_env (robot_at 0 0)
          (tracking_state ''map'' [mk_pose 3 0 0, mk_pose (1 / 2) 0 0, mk_pose 4 0 0] []))
     \<noteq> Inl OutOfRange"
  using prune_in_bounds[of identity_env "robot_at 0 0"
      "tracking_state ''map'' [mk_pose 3 0 0, mk_pose (1 / 2) 0 0, mk_pose 4 0 0] []"
      "mk_pose 0 0 0" 1 True 1 "robot_at 0 0"]
  by (simp add: planner_example_defs)

lemma takeWhile_take_dropWhile:
  "takeWhile P xs @ take j (dropWhile P xs) = take (length (takeWhile P xs) + j) xs"
  by (induction xs) simp_all

lemma take_length_self: "ys = take n xs \<Longrightarrow> ys = take (length ys) xs"
  by (auto simp: min_def)

lemma window_spec_prefix:
  assumes "ps = [] \<or> \<not> beyond robot t (hd ps)"
  shows "window_spec robot t ps = take (length (window_spec robot t ps)) ps"
proof -
  from assms have "dropWhile (beyond robot t) ps = ps" by (cases ps) auto
  then have "window_spec robot t ps =
      take (length (takeWhile (\<lambda>p. \<not> beyond robot t p) ps) + 1) ps"
    by (simp add: window_spec_def takeWhile_take_dropWhile)
  then show ?thesis by (rule take_length_self)
qed

text \<open>
  Claim C10, as the code has it. Let pruning be enabled, the stored plan not empty and
  both transforms of the robot's pose succeed. If \<open>transformGlobalPlan\<close> fails because
  no transformed pose is left, the stored plan has lost as many leading poses as the
  window had poses, and keeps that loss in the state that comes with the failure. In
  particular, if no windowed pose is nearer to the robot than the prune distance
  (squared distance not below \<open>prune_distance * prune_distance\<close>), the failure is raised
  after that many leading poses were erased. The erased poses are the windowed ones
  when the first pose of the plan lies within the window's threshold; when leading
  poses were skipped by the window, the prune pass erases those first, and windowed
  poses stay in the stored plan (see the counterexample).
\<close>

theorem prune_failure_not_atomic:
  assumes plan: "poses (global_plan s) \<noteq> []"
    and rp: "transformPose e (frame_id (path_header (global_plan s))) p = Some robot_pose"
    and cp: "transformPose e (getFrameId e) p = Some costmap_pose"
  shows "(fst (transformGlobalPlan True pd e p s) = Inl (PlannerException ''Resulting plan has 0 poses in it.'')
            \<longrightarrow> poses (global_plan (snd (transformGlobalPlan True pd e p s))) =
                  drop (length (windowed_plan e robot_pose (global_plan s))) (poses (global_plan s))) \<and>
         (list_all (\<lambda>w. \<not> getSquareDistance (pose costmap_pose) w < pd * pd)
                   (windowed_plan e robot_pose (global_plan s))
            \<longrightarrow> fst (transformGlobalPlan True pd e p s) = Inl (PlannerException ''Resulting plan has 0 poses in it.'')) \<and>
         (\<not> beyond (pose robot_pose) (dist_threshold e) (hd (poses (global_plan s)))
            \<longrightarrow> windowed_plan e robot_pose (global_plan s) =
                  map (to_costmap_frame e (frame_id (path_header (global_plan s))))
                    (take (length (windowed_plan e robot_pose (global_plan s))) (poses (global_plan s))))"
proof -
  let ?W = "windowed_plan e robot_pose (global_plan s)"
  let ?gp = "poses (global_plan s)"
  from prune_loop_in_bounds[OF length_windowed_plan, of e robot_pose "global_plan s" "pose costmap_pose" "pd * pd"]
  obtain k where k: "k \<le> length ?W"
    and pl: "prune_loop (pose costmap_pose) (pd * pd) ?W ?gp = Some (drop k ?W, drop k ?gp)"
    and stop: "k < length ?W \<longrightarrow> getSquareDistance (pose costmap_pose) (?W ! k) < pd * pd"
    by blast
  note T = prune_branch[OF plan rp cp pl]
  have A: "fst (transformGlobalPlan True pd e p s) = Inl (PlannerException ''Resulting plan has 0 poses in it.'')
            \<longrightarrow> poses (global_plan (snd (transformGlobalPlan True pd e p s))) = drop (length ?W) ?gp"
  proof
    assume "fst (transformGlobalPlan True pd e p s) = Inl (PlannerException ''Resulting plan has 0 poses in it.'')"
    with T have "drop k ?W = []" by (simp split: if_splits)
    with k have "k = length ?W" by simp
    with T show "poses (global_plan (snd (transformGlobalPlan True pd e p s))) = drop (length ?W) ?gp"
      by simp
  qed
  have B: "list_all (\<lambda>w. \<not> getSquareDistance (pose costmap_pose) w < pd * pd) ?W
            \<longrightarrow> fst (transformGlobalPlan True pd e p s) = Inl (PlannerException ''Resulting plan has 0 poses in it.'')"
  proof
    assume far: "list_all (\<lambda>w. \<not> getSquareDistance (pose costmap_pose) w < pd * pd) ?W"
    have "\<not> k < length ?W"
    proof
      assume "k < length ?W"
      with stop far show False by (simp add: list_all_length)
    qed
    with k have "drop k ?W = []" by simp
    with T show "fst (transformGlobalPlan True pd e p s) = Inl (PlannerException ''Resulting plan has 0 poses in it.'')"
      by simp
  qed
  have C: "\<not> beyond (pose robot_pose) (dist_threshold e) (hd ?gp)
            \<longrightarrow> ?W = map (to_costmap_frame e (frame_id (path_header (global_plan s)))) (take (length ?W) ?gp)"
  proof
    assume "\<not> beyond (pose robot_pose) (dist_threshold e) (hd ?gp)"
    then have "window_spec (pose robot_pose) (dist_threshold e) ?gp
        = take (length (window_spec (pose robot_pose) (dist_threshold e) ?gp)) ?gp"
      by (intro window_spec_prefix) simp
    then show "?W = map (to_costmap_frame e (frame_id (path_header (global_plan s)))) (take (length ?W) ?gp)"
      by (simp add: windowed_plan_spec)
  qed
  show ?thesis by (rule conjI[OF A conjI[OF B C]])
qed

theorem prune_failure_not_atomic_witness:
  "poses (global_plan (tracking_state ''map''
      [mk_pose 3 0 0, mk_pose 4 0 0, mk_pose 9 0 0, mk_pose 2 0 0] [])) \<noteq> [] \<and>
   transformPose identity_env
      (frame_id (path_header (global_plan (tracking_state ''map''
         [mk_pose 3 0 0, mk_pose 4 0 0, mk_pose 9 0 0, mk_pose 2 0 0] []))))
      (robot_at 0 0) = Some (robot_at 0 0) \<and>
   transformPose identity_env (getFrameId identity_env) (robot_at 0 0)
     = Some ((robot_at 0 0)\<lparr>pose_header := \<lparr>frame_id = ''odom'', stamp = 7\<rparr>\<rparr>) \<and>
   fst (transformGlobalPlan True 1 identity_env (robot_at 0 0)
          (tracking_state ''map'' [mk_pose 3 0 0, mk_pose 4 0 0, mk_pose 9 0 0, mk_pose 2 0 0] []))
     = Inl (PlannerException ''Resulting plan has 0 poses in it.'') \<and>
   poses (global_plan (snd (transformGlobalPlan True 1 identity_env (robot_at 0 0)
          (tracking_state ''map'' [mk_pose 3 0 0, mk_pose 4 0 0, mk_pose 9 0 0, mk_pose 2 0 0] []))))
     = [mk_pose 2 0 0]"
  using prune_failure_not_atomic[of
      "tracking_state ''map'' [mk_pose 3 0 0, mk_pose 4 0 0, mk_pose 9 0 0, mk_pose 2 0 0] []"
      identity_env "robot_at 0 0" "robot_at 0 0"
      "(robot_at 0 0)\<lparr>pose_header := \<lparr>frame_id = ''odom'', stamp = 7\<rparr>\<rparr>" 1]
  by (simp add: planner_example_defs)

text \<open>
  The plan \<open>[(10,0), (3,0), (4,0)]\<close>, the robot at the origin, a window threshold of 5
  and a prune distance of 1. The window skips \<open>(10,0)\<close> and holds \<open>(3,0)\<close> and \<open>(4,0)\<close>,
  both farther than 1 from the robot. The transform fails with no pose left, and the
  stored plan is \<open>[(4,0)]\<close>: the windowed pose \<open>(4,0)\<close> was not removed from it, the
  skipped pose \<open>(10,0)\<close> was.
\<close>

theorem windowed_pose_survives_counterexample:
  "windowed_plan identity_env (robot_at 0 0)
      \<lparr>path_header = map_header, poses = [mk_pose 10 0 0, mk_pose 3 0 0, mk_pose 4 0 0]\<rparr>
     = [mk_pose 3 0 0, mk_pose 4 0 0] \<and>
   getSquareDistance (mk_pose 0 0 0) (mk_pose 3 0 0) > 1 * 1 \<and>
   getSquareDistance (mk_pose 0 0 0) (mk_pose 4 0 0) > 1 * 1 \<and>
   fst (transformGlobalPlan True 1 identity_env (robot_at 0 0)
         (tracking_state ''map'' [mk_pose 10 0 0, mk_pose 3 0 0, mk_pose 4 0 0] []))
     = Inl (PlannerException ''Resulting plan has 0 poses in it.'') \<and>
   poses (global_plan (snd (transformGlobalPlan True 1 identity_env (robot_at 0 0)
         (tracking_state ''map'' [mk_pose 10 0 0, mk_pose 3 0 0, mk_pose 4 0 0] []))))
     = [mk_pose 4 0 0]"
  by (simp add: planner_example_defs)

end
